theory Spec2Isabelle
  imports Complex_Main
begin

section \<open>JavaScript values used by the dashboard\<close>

text \<open>
  Page numbers, limits and totals are JavaScript numbers, that is IEEE 754 doubles. The
  values that occur in the pagination logic are the doubles without a fraction, the two
  infinities and \<open>NaN\<close> (the result of \<open>parseInt\<close> on a string without leading digits).
  A double without a fraction is written \<open>Num i\<close> with its integer value \<open>i\<close>; every
  integer up to \<open>2 ^ 53\<close> in magnitude is such a double, above that only the multiples
  of the growing powers of two are.
\<close>

datatype number = NaN | Num int | PosInfinity | NegInfinity

text \<open>
  Rounding an integer to the nearest double, ties to the even significand. A magnitude
  below \<open>2 ^ 53\<close> is kept; a larger one is a multiple of the unit \<open>ulp_of\<close>, the power of
  two that leaves a significand of 53 bits. A result of \<open>2 ^ 1024\<close> or more overflows to
  an infinity.
\<close>

function ulp_of :: "int \<Rightarrow> int" where
  "ulp_of n = (if n < 2 ^ 53 then 1 else 2 * ulp_of (n div 2))"
  by pat_completeness auto
termination
  by (relation "measure nat") auto

declare ulp_of.simps [simp del]

definition round_magnitude :: "int \<Rightarrow> int" where
  "round_magnitude n =
     (let u = ulp_of n; q = n div u; r = n mod u
      in if 2 * r < u \<or> (2 * r = u \<and> even q) then q * u else (q + 1) * u)"

definition to_double :: "int \<Rightarrow> number" where
  "to_double x =
     (let y = round_magnitude \<bar>x\<bar>
      in if 2 ^ 1024 \<le> y then (if 0 \<le> x then PosInfinity else NegInfinity)
         else Num (if 0 \<le> x then y else - y))"

text \<open>
  Addition and subtraction round the exact result; an operation with a \<open>NaN\<close> operand
  is \<open>NaN\<close>, and so is the difference of equal infinities. Every comparison with \<open>NaN\<close>
  is false.
\<close>

fun js_add :: "number \<Rightarrow> number \<Rightarrow> number" where
  "js_add NaN _ = NaN"
| "js_add _ NaN = NaN"
| "js_add (Num a) (Num b) = to_double (a + b)"
| "js_add PosInfinity NegInfinity = NaN"
| "js_add NegInfinity PosInfinity = NaN"
| "js_add PosInfinity _ = PosInfinity"
| "js_add _ PosInfinity = PosInfinity"
| "js_add NegInfinity _ = NegInfinity"
| "js_add _ NegInfinity = NegInfinity"

fun js_sub :: "number \<Rightarrow> number \<Rightarrow> number" where
  "js_sub NaN _ = NaN"
| "js_sub _ NaN = NaN"
| "js_sub (Num a) (Num b) = to_double (a - b)"
| "js_sub PosInfinity PosInfinity = NaN"
| "js_sub NegInfinity NegInfinity = NaN"
| "js_sub PosInfinity _ = PosInfinity"
| "js_sub _ NegInfinity = PosInfinity"
| "js_sub NegInfinity _ = NegInfinity"
| "js_sub _ PosInfinity = NegInfinity"

fun js_lt :: "number \<Rightarrow> number \<Rightarrow> bool" where
  "js_lt (Num a) (Num b) = (a < b)"
| "js_lt (Num a) PosInfinity = True"
| "js_lt NegInfinity (Num b) = True"
| "js_lt NegInfinity PosInfinity = True"
| "js_lt _ _ = False"

fun js_le :: "number \<Rightarrow> number \<Rightarrow> bool" where
  "js_le (Num a) (Num b) = (a \<le> b)"
| "js_le (Num a) PosInfinity = True"
| "js_le NegInfinity (Num b) = True"
| "js_le NegInfinity PosInfinity = True"
| "js_le PosInfinity PosInfinity = True"
| "js_le NegInfinity NegInfinity = True"
| "js_le _ _ = False"

text \<open>\<open>a > b\<close> is \<open>b < a\<close> with the operands swapped.\<close>

definition js_gt :: "number \<Rightarrow> number \<Rightarrow> bool" where
  "js_gt a b = js_lt b a"

fun Math_max :: "number \<Rightarrow> number \<Rightarrow> number" where
  "Math_max NaN _ = NaN"
| "Math_max _ NaN = NaN"
| "Math_max (Num a) (Num b) = Num (max a b)"
| "Math_max PosInfinity _ = PosInfinity"
| "Math_max _ PosInfinity = PosInfinity"
| "Math_max NegInfinity b = b"
| "Math_max a NegInfinity = a"

fun Math_min :: "number \<Rightarrow> number \<Rightarrow> number" where
  "Math_min NaN _ = NaN"
| "Math_min _ NaN = NaN"
| "Math_min (Num a) (Num b) = Num (min a b)"
| "Math_min NegInfinity _ = NegInfinity"
| "Math_min _ NegInfinity = NegInfinity"
| "Math_min PosInfinity b = b"
| "Math_min a PosInfinity = a"


text \<open>
  \<open>Math.floor(x / 2)\<close>: halving a double is exact, and the floor of the half of an
  integer is the integer quotient rounded towards minus infinity.
\<close>

fun Math_floor_half :: "number \<Rightarrow> number" where
  "Math_floor_half (Num a) = Num (a div 2)"
| "Math_floor_half x = x"

section \<open>Transactions and their classification\<close>

text \<open>
  The interfaces \<open>TransactionUser\<close> and \<open>Transaction\<close> of the dashboard. The field
  \<open>id\<close> is named \<open>tx_id\<close> here. Amounts may carry fractions and play no part in
  the logic below.
\<close>

record TransactionUser =
  name :: string
  account :: string

record Transaction =
  tx_id :: string
  sender :: TransactionUser
  receiver :: TransactionUser
  amount_with_currency :: string
  amount :: real
  amount_in_base_currency :: real
  fee :: real
  currency :: string
  cause :: string
  sender_caption :: string
  receiver_caption :: string
  created_at_time :: int
  is_topup :: bool
  is_outgoing_transfer :: bool
  fee_vat :: real
  fee_before_vat :: real

definition isIncomingTransaction :: "Transaction \<Rightarrow> string \<Rightarrow> bool" where
  "isIncomingTransaction transaction currentUser =
     (account (receiver transaction) = currentUser
      \<or> is_topup transaction
      \<or> account (sender transaction) = account (receiver transaction))"

section \<open>The page window of the Pagination component\<close>

definition maxVisiblePages :: number where
  "maxVisiblePages = Num 5"

text \<open>
  The loop \<open>for (let i = startPage; i <= endPage; i++) pages.push(i)\<close>, with the array
  built so far as an accumulator. It stops at once when a bound is \<open>NaN\<close>. It need not
  stop at all: from \<open>2 ^ 53\<close> on, \<open>i++\<close> rounds back to \<open>i\<close>. A loop that does not
  return has the value \<open>None\<close>.
\<close>

partial_function (option) pages_loop :: "number \<Rightarrow> number \<Rightarrow> number list \<Rightarrow> number list option" where
  "pages_loop i endPage pages =
     (if js_le i endPage then pages_loop (js_add i (Num 1)) endPage (pages @ [i])
      else Some pages)"

definition Pagination_pages :: "number \<Rightarrow> number \<Rightarrow> number list option" where
  "Pagination_pages currentPage totalPages =
     (let startPage0 = Math_max (Num 1) (js_sub currentPage (Math_floor_half maxVisiblePages));
          endPage = Math_min totalPages (js_sub (js_add startPage0 maxVisiblePages) (Num 1));
          startPage =
            (if js_lt (js_add (js_sub endPage startPage0) (Num 1)) maxVisiblePages
             then Math_max (Num 1) (js_add (js_sub endPage maxVisiblePages) (Num 1))
             else startPage0)
      in pages_loop startPage endPage [])"

subsection \<open>The window as the specification words it\<close>

definition window_end :: "int \<Rightarrow> int \<Rightarrow> int" where
  "window_end currentPage totalPages =
     min totalPages (max 1 (currentPage - 5 div 2) + 4)"

definition window_start :: "int \<Rightarrow> int \<Rightarrow> int" where
  "window_start currentPage totalPages =
     (let start = max 1 (currentPage - 5 div 2);
          end = window_end currentPage totalPages
      in if end - start + 1 < 5 then max 1 (end - 4) else start)"


section \<open>Strings: trimming, parsing and printing numbers\<close>

text \<open>
  Strings are sequences of code units below 256. The white space removed by
  \<open>String.prototype.trim\<close> and skipped by \<open>parseInt\<close> is, in that range, tab, line feed,
  vertical tab, form feed, carriage return, space and the no-break space.
\<close>

definition is_whitespace :: "char \<Rightarrow> bool" where
  "is_whitespace c =
     (c \<in> set [CHR 0x09, CHR 0x0A, CHR 0x0B, CHR 0x0C, CHR 0x0D, CHR 0x20, CHR 0xA0])"

definition trim :: "string \<Rightarrow> string" where
  "trim s = rev (dropWhile is_whitespace (rev (dropWhile is_whitespace s)))"

definition digit_value :: "char \<Rightarrow> int option" where
  "digit_value = map_of
     [(CHR ''0'', 0), (CHR ''1'', 1), (CHR ''2'', 2), (CHR ''3'', 3), (CHR ''4'', 4),
      (CHR ''5'', 5), (CHR ''6'', 6), (CHR ''7'', 7), (CHR ''8'', 8), (CHR ''9'', 9)]"

definition is_digit :: "char \<Rightarrow> bool" where
  "is_digit c = (digit_value c \<noteq> None)"

definition digit_of :: "char \<Rightarrow> int" where
  "digit_of c = (case digit_value c of Some d \<Rightarrow> d | None \<Rightarrow> 0)"

text \<open>
  \<open>parseInt(string, 10)\<close>: skip leading white space, read an optional sign, take the
  longest prefix of decimal digits; without a digit the result is \<open>NaN\<close>, otherwise the
  signed value of the digits rounded to a double (\<open>-0\<close> is the number 0 here).
  Whatever follows the digits is ignored. With radix 10 given, a prefix \<open>0x\<close> is not
  special.
\<close>

definition parseInt :: "string \<Rightarrow> number" where
  "parseInt inputString =
     (let S = dropWhile is_whitespace inputString;
          sign = (case S of c # _ \<Rightarrow> if c = CHR ''-'' then (- 1 :: int) else 1 | [] \<Rightarrow> 1);
          S' = (case S of c # rest \<Rightarrow> if c = CHR ''+'' \<or> c = CHR ''-'' then rest else S
                | [] \<Rightarrow> S);
          Z = takeWhile is_digit S'
      in if Z = [] then NaN
         else to_double (sign * foldl (\<lambda>acc c. 10 * acc + digit_of c) 0 Z))"

text \<open>
  \<open>Number.prototype.toString\<close> in base 10, which the template literals and
  \<open>newPage.toString()\<close> use. Below \<open>2 ^ 53\<close> the digits are those of the integer. From
  there on they are the shortest decimal that rounds to the double (the closest one when
  there are two, \<open>shortest_decimal\<close>), printed in full when it has at most 21 digits and
  with an exponent otherwise.
\<close>

function string_of_nat :: "nat \<Rightarrow> string" where
  "string_of_nat n =
     (if n < 10 then [''0123456789'' ! n]
      else string_of_nat (n div 10) @ [''0123456789'' ! (n mod 10)])"
  by pat_completeness auto
termination
  by (relation "measure (\<lambda>n. n)") auto

declare string_of_nat.simps [simp del]

text \<open>
  The decimal with the fewest significant digits, at least \<open>k\<close>, that rounds to the
  double \<open>x\<close> of \<open>d\<close> digits.
\<close>

function shortest_decimal :: "nat \<Rightarrow> nat \<Rightarrow> int \<Rightarrow> int" where
  "shortest_decimal k d x =
     (if d \<le> k then x
      else let p = 10 ^ (d - k); lo = (x div p) * p; hi = lo + p;
               ok_lo = (to_double lo = Num x); ok_hi = (to_double hi = Num x)
           in if ok_lo \<and> ok_hi
              then (if x - lo < hi - x \<or> (x - lo = hi - x \<and> even (x div p)) then lo else hi)
              else if ok_lo then lo
              else if ok_hi then hi
              else shortest_decimal (Suc k) d x)"
  by pat_completeness auto
termination
  by (relation "measure (\<lambda>(k, d, x). d - k)") auto

declare shortest_decimal.simps [simp del]

definition strip_zeros :: "string \<Rightarrow> string" where
  "strip_zeros ds = rev (dropWhile (\<lambda>c. c = CHR ''0'') (rev ds))"

definition magnitude_string :: "int \<Rightarrow> string" where
  "magnitude_string x =
     (if x < 2 ^ 53 then string_of_nat (nat x)
      else let ds = string_of_nat (nat (shortest_decimal 1 (length (string_of_nat (nat x))) x));
               n = length ds
           in if n \<le> 21 then ds
              else case strip_zeros ds of
                     [] \<Rightarrow> ds
                   | c # cs \<Rightarrow> (if cs = [] then [c] else c # CHR ''.'' # cs)
                              @ ''e+'' @ string_of_nat (n - 1))"

fun toString :: "number \<Rightarrow> string" where
  "toString NaN = ''NaN''"
| "toString PosInfinity = ''Infinity''"
| "toString NegInfinity = ''-Infinity''"
| "toString (Num i) =
     (if i < 0 then CHR ''-'' # magnitude_string (- i) else magnitude_string i)"

section \<open>The query part of the browser's location\<close>

text \<open>
  \<open>URLSearchParams\<close> is the list of name/value pairs of the query string, in order.
  \<open>get\<close> returns the first value of a name, or null (\<open>None\<close>); \<open>set\<close> overwrites the
  first pair of that name and removes the others, or appends a pair when there is none.
\<close>

type_synonym URLSearchParams = "(string \<times> string) list"

definition searchParams_get :: "URLSearchParams \<Rightarrow> string \<Rightarrow> string option" where
  "searchParams_get params k = map_of params k"

fun searchParams_set :: "URLSearchParams \<Rightarrow> string \<Rightarrow> string \<Rightarrow> URLSearchParams" where
  "searchParams_set [] k v = [(k, v)]"
| "searchParams_set ((k', v') # params) k v =
     (if k' = k then (k, v) # filter (\<lambda>kv. fst kv \<noteq> k) params
      else (k', v') # searchParams_set params k v)"

section \<open>State of the dashboard\<close>

text \<open>The field \<open>total\<close> of the pagination object is named \<open>total_items\<close> here.\<close>

record PaginationState =
  page :: number
  limit :: number
  total_items :: number
  totalPages :: number

record SummaryStats =
  incomingSum :: real
  outgoingSum :: real

text \<open>
  \<open>PaginatedResponse\<close>: the optional sums are \<open>None\<close> when the server leaves them out.
\<close>

record PaginatedResponse =
  resp_data :: "Transaction list"
  resp_pagination :: PaginationState
  resp_incomingSum :: "real option"
  resp_outgoingSum :: "real option"

datatype http_method = GET | POST

text \<open>The body of a search request is the object \<open>{query}\<close>, before serialisation.\<close>

datatype request_body = QueryBody string

record Request =
  req_method :: http_method
  req_url :: string
  req_body :: "request_body option"

text \<open>
  How a call of \<open>fetch\<close> ends: the promise rejects (network error), or it resolves to a
  response with a status code whose body parses to a \<open>PaginatedResponse\<close> or does not
  (\<open>response.json()\<close> throws). \<open>response.ok\<close> is true for the status codes 200 to 299.
\<close>

datatype fetch_outcome = NetworkError | HttpResponse nat "PaginatedResponse option"

definition response_ok :: "nat \<Rightarrow> bool" where
  "response_ok status = (200 \<le> status \<and> status \<le> 299)"

text \<open>
  The state of the component: its \<open>useState\<close> cells, the settled search query handed out
  by \<open>useDebounce\<close>, the query parameters of \<open>window.location\<close>, and the requests passed to
  \<open>fetch\<close> so far, oldest first. (The cell \<open>isMobile\<close> only selects the layout.)
\<close>

record Dashboard =
  transactions :: "Transaction list"
  pagination :: PaginationState
  summaryStats :: SummaryStats
  searchQuery :: string
  isLoading :: bool
  error :: "string option"
  debouncedSearchQuery :: string
  location_search :: URLSearchParams
  requests :: "Request list"

definition API_BASE_URL :: string where
  "API_BASE_URL = ''http://localhost:3001''"

definition CURRENT_USER :: string where
  "CURRENT_USER = ''current_user''"

definition fetch_error_message :: string where
  "fetch_error_message =
     ''Failed to load transactions. Please check your connection and try again.''"

definition initial_pagination :: PaginationState where
  "initial_pagination = \<lparr>page = Num 1, limit = Num 10, total_items = Num 0, totalPages = Num 0\<rparr>"

text \<open>The state of the first render, for a given query string of the location.\<close>

definition initial_state :: "URLSearchParams \<Rightarrow> Dashboard" where
  "initial_state params =
     \<lparr>transactions = [], pagination = initial_pagination,
      summaryStats = \<lparr>incomingSum = 0, outgoingSum = 0\<rparr>,
      searchQuery = [], isLoading = True, error = None, debouncedSearchQuery = [],
      location_search = params, requests = []\<rparr>"

section \<open>Fetching transactions\<close>

text \<open>
  The request that the \<open>try\<close> block of \<open>fetchTransactions\<close> builds from the page, the limit
  of the pagination state and the query.
\<close>

definition fetch_request :: "number \<Rightarrow> number \<Rightarrow> string \<Rightarrow> Request" where
  "fetch_request pg lmt query =
     (if trim query \<noteq> []
      then \<lparr>req_method = POST,
            req_url = API_BASE_URL @ ''/api/transactions/search?page='' @ toString pg
                      @ ''&limit='' @ toString lmt,
            req_body = Some (QueryBody (trim query))\<rparr>
      else \<lparr>req_method = GET,
            req_url = API_BASE_URL @ ''/api/transactions?page='' @ toString pg
                      @ ''&limit='' @ toString lmt,
            req_body = None\<rparr>)"

text \<open>
  \<open>fetchTransactions\<close> up to its \<open>await\<close>: loading is switched on, the error is cleared
  and the request is handed to \<open>fetch\<close>.
\<close>

definition fetchTransactions_start :: "Dashboard \<Rightarrow> number \<Rightarrow> string \<Rightarrow> Dashboard" where
  "fetchTransactions_start s pg query =
     s\<lparr>isLoading := True, error := None,
       requests := requests s @ [fetch_request pg (limit (pagination s)) query]\<rparr>"

text \<open>
  \<open>fetchTransactions\<close> after the \<open>await\<close>: a response that is ok and parses is stored;
  a rejected promise, a status outside 200 to 299 and a body that does not parse all end
  in the \<open>catch\<close> block. The \<open>finally\<close> block switches loading off.
  \<open>data.incomingSum || 0\<close> is 0 when the sum is missing.
\<close>

definition fetch_failure :: "Dashboard \<Rightarrow> Dashboard" where
  "fetch_failure s =
     s\<lparr>error := Some fetch_error_message,
       transactions := [],
       pagination := \<lparr>page = Num 1, limit = Num 10, total_items = Num 0, totalPages = Num 0\<rparr>,
       summaryStats := \<lparr>incomingSum = 0, outgoingSum = 0\<rparr>,
       isLoading := False\<rparr>"

definition fetch_success :: "Dashboard \<Rightarrow> PaginatedResponse \<Rightarrow> Dashboard" where
  "fetch_success s d =
     s\<lparr>transactions := resp_data d,
       pagination := resp_pagination d,
       summaryStats :=
         \<lparr>incomingSum = (case resp_incomingSum d of Some x \<Rightarrow> x | None \<Rightarrow> 0),
          outgoingSum = (case resp_outgoingSum d of Some x \<Rightarrow> x | None \<Rightarrow> 0)\<rparr>,
       isLoading := False\<rparr>"

fun fetchTransactions_settle :: "Dashboard \<Rightarrow> fetch_outcome \<Rightarrow> Dashboard" where
  "fetchTransactions_settle s NetworkError = fetch_failure s"
| "fetchTransactions_settle s (HttpResponse status body) =
     (if \<not> response_ok status then fetch_failure s
      else case body of None \<Rightarrow> fetch_failure s | Some d \<Rightarrow> fetch_success s d)"

text \<open>A fetch fails when the promise rejects, the status is not 2xx or the body does not parse.\<close>

fun fetch_failed :: "fetch_outcome \<Rightarrow> bool" where
  "fetch_failed NetworkError = True"
| "fetch_failed (HttpResponse status body) = (\<not> response_ok status \<or> body = None)"

section \<open>Effects and handlers of the dashboard\<close>

text \<open>
  The mount effect: the page is read from the query parameter \<open>p\<close>; a missing or empty
  parameter is falsy and gives 1, any other string goes through \<open>parseInt\<close>.
\<close>

definition initialPage :: "URLSearchParams \<Rightarrow> number" where
  "initialPage params =
     (case searchParams_get params ''p'' of
        None \<Rightarrow> Num 1
      | Some pageParam \<Rightarrow> if pageParam \<noteq> [] then parseInt pageParam else Num 1)"

definition mount_effect :: "Dashboard \<Rightarrow> Dashboard" where
  "mount_effect s =
     (let initPage = initialPage (location_search s);
          s1 = s\<lparr>pagination := (pagination s)\<lparr>page := initPage\<rparr>\<rparr>
      in fetchTransactions_start s1 initPage [])"

text \<open>Writing a page into the query parameter \<open>p\<close> with \<open>history.replaceState\<close>.\<close>

definition write_page_to_url :: "Dashboard \<Rightarrow> number \<Rightarrow> Dashboard" where
  "write_page_to_url s newPage =
     s\<lparr>location_search := searchParams_set (location_search s) ''p'' (toString newPage)\<rparr>"

text \<open>The search effect, which runs once the settled query has caught up with the input.\<close>

definition search_effect :: "Dashboard \<Rightarrow> Dashboard" where
  "search_effect s =
     (if debouncedSearchQuery s \<noteq> searchQuery s then s
      else let newPage = Num 1;
               s1 = s\<lparr>pagination := (pagination s)\<lparr>page := newPage\<rparr>\<rparr>;
               s2 = write_page_to_url s1 newPage
           in fetchTransactions_start s2 newPage (debouncedSearchQuery s))"

definition handlePageChange :: "Dashboard \<Rightarrow> number \<Rightarrow> Dashboard" where
  "handlePageChange s newPage =
     (if js_lt newPage (Num 1) \<or> js_gt newPage (totalPages (pagination s)) \<or> isLoading s then s
      else let s1 = s\<lparr>pagination := (pagination s)\<lparr>page := newPage\<rparr>\<rparr>;
               s2 = write_page_to_url s1 newPage
           in fetchTransactions_start s2 newPage (debouncedSearchQuery s))"

definition handleRetry :: "Dashboard \<Rightarrow> Dashboard" where
  "handleRetry s = fetchTransactions_start s (page (pagination s)) (debouncedSearchQuery s)"

section \<open>The hook useTransactions\<close>

text \<open>
  The hook keeps the same cells as the dashboard without the summary and hands each
  request to \<open>apiClient\<close>, whose module is not part of the sources: a call is recorded
  with its method, path, body and query parameters, and the way its promise settles is
  an input. The hook stores the transactions it receives without looking into them, so
  their type is a parameter.
\<close>

record ApiCall =
  call_method :: http_method
  call_path :: string
  call_body :: "request_body option"
  call_params :: "(string \<times> string) list"

record 'tx ApiResponse =
  api_data :: "'tx list"
  api_pagination :: PaginationState

datatype 'tx api_outcome = ApiRejected | ApiResolved "'tx ApiResponse"

record 'tx HookState =
  h_transactions :: "'tx list"
  h_pagination :: PaginationState
  h_isLoading :: bool
  h_error :: "string option"
  h_calls :: "ApiCall list"

definition useTransactions_initial :: "number \<Rightarrow> 'tx HookState" where
  "useTransactions_initial initPage =
     \<lparr>h_transactions = [],
      h_pagination = \<lparr>page = initPage, limit = Num 10, total_items = Num 0, totalPages = Num 0\<rparr>,
      h_isLoading = True, h_error = None, h_calls = []\<rparr>"

definition api_call :: "number \<Rightarrow> number \<Rightarrow> string \<Rightarrow> ApiCall" where
  "api_call pg lmt query =
     (if trim query \<noteq> []
      then \<lparr>call_method = POST, call_path = ''/api/transactions/search'',
            call_body = Some (QueryBody (trim query)),
            call_params = [(''page'', toString pg), (''limit'', toString lmt)]\<rparr>
      else \<lparr>call_method = GET, call_path = ''/api/transactions'',
            call_body = None,
            call_params = [(''page'', toString pg), (''limit'', toString lmt)]\<rparr>)"

definition hook_fetchTransactions_start :: "'tx HookState \<Rightarrow> number \<Rightarrow> string \<Rightarrow> 'tx HookState" where
  "hook_fetchTransactions_start h pg query =
     h\<lparr>h_isLoading := True, h_error := None,
       h_calls := h_calls h @ [api_call pg (limit (h_pagination h)) query]\<rparr>"

fun hook_fetchTransactions_settle :: "'tx HookState \<Rightarrow> 'tx api_outcome \<Rightarrow> 'tx HookState" where
  "hook_fetchTransactions_settle h (ApiResolved response) =
     h\<lparr>h_transactions := api_data response,
       h_pagination := api_pagination response,
       h_isLoading := False\<rparr>"
| "hook_fetchTransactions_settle h ApiRejected =
     h\<lparr>h_error := Some fetch_error_message,
       h_transactions := [],
       h_pagination := (h_pagination h)\<lparr>total_items := Num 0, totalPages := Num 0\<rparr>,
       h_isLoading := False\<rparr>"

section \<open>The hook useDebounce\<close>

text \<open>
  The hook is followed over a sequence of events on a clock counting milliseconds: a
  render of the component with the current raw value, or the passing of some time.
  Its state is the value of the last render (the dependency of the effect), the cell
  \<open>debouncedValue\<close>, the pending timeout with the time left and the value its callback
  captured, and the values the callback has stored so far, oldest first.

  The first render initialises the cell with the value and its effect starts a timeout.
  A later render runs the effect again only when the value differs from the one of the
  previous render: the cleanup clears the pending timeout and a new one is started with
  the full delay. A timeout fires once its delay has passed and stores the captured value.
\<close>

record DebounceState =
  raw_value :: string
  debouncedValue :: string
  timer :: "(nat \<times> string) option"
  emitted :: "string list"

datatype debounce_event = Render string | Elapse nat

definition useDebounce_mount :: "string \<Rightarrow> nat \<Rightarrow> DebounceState" where
  "useDebounce_mount v delay =
     \<lparr>raw_value = v, debouncedValue = v, timer = Some (delay, v), emitted = []\<rparr>"

definition useDebounce_render :: "nat \<Rightarrow> DebounceState \<Rightarrow> string \<Rightarrow> DebounceState" where
  "useDebounce_render delay s v =
     (if v = raw_value s then s else s\<lparr>raw_value := v, timer := Some (delay, v)\<rparr>)"

definition timer_elapse :: "DebounceState \<Rightarrow> nat \<Rightarrow> DebounceState" where
  "timer_elapse s d =
     (case timer s of
        None \<Rightarrow> s
      | Some (remaining, captured) \<Rightarrow>
          if remaining \<le> d
          then s\<lparr>debouncedValue := captured, timer := None, emitted := emitted s @ [captured]\<rparr>
          else s\<lparr>timer := Some (remaining - d, captured)\<rparr>)"

fun useDebounce_step :: "nat \<Rightarrow> DebounceState \<Rightarrow> debounce_event \<Rightarrow> DebounceState" where
  "useDebounce_step delay s (Render v) = useDebounce_render delay s v"
| "useDebounce_step delay s (Elapse d) = timer_elapse s d"

fun useDebounce_run :: "nat \<Rightarrow> DebounceState \<Rightarrow> debounce_event list \<Rightarrow> DebounceState" where
  "useDebounce_run delay s [] = s"
| "useDebounce_run delay s (e # es) = useDebounce_run delay (useDebounce_step delay s e) es"

subsection \<open>What a sequence of events says about the raw value\<close>

text \<open>
  The latest raw value after a sequence of events that started with raw value \<open>v\<close>, and
  the time that has passed since the raw value last changed, given that \<open>q\<close> had passed
  before the sequence.
\<close>

fun latest_raw :: "string \<Rightarrow> debounce_event list \<Rightarrow> string" where
  "latest_raw v [] = v"
| "latest_raw v (Render v' # es) = latest_raw v' es"
| "latest_raw v (Elapse d # es) = latest_raw v es"

fun quiet_time :: "string \<Rightarrow> nat \<Rightarrow> debounce_event list \<Rightarrow> nat" where
  "quiet_time v q [] = q"
| "quiet_time v q (Render v' # es) = quiet_time v' (if v' = v then q else 0) es"
| "quiet_time v q (Elapse d # es) = quiet_time v (q + d) es"

text \<open>
  A burst: a sequence of events during which the raw value is never left alone for the
  whole delay.
\<close>

fun burst :: "nat \<Rightarrow> string \<Rightarrow> nat \<Rightarrow> debounce_event list \<Rightarrow> bool" where
  "burst delay v q [] = True"
| "burst delay v q (Render v' # es) = burst delay v' (if v' = v then q else 0) es"
| "burst delay v q (Elapse d # es) = (q + d < delay \<and> burst delay v (q + d) es)"

text \<open>
  A quiet phase: every render in the sequence carries the raw value \<open>v\<close>.
\<close>

fun steady :: "string \<Rightarrow> debounce_event list \<Rightarrow> bool" where
  "steady v [] = True"
| "steady v (Render v' # es) = (v' = v \<and> steady v es)"
| "steady v (Elapse d # es) = steady v es"

text \<open>
  How the state of the hook relates to the raw value \<open>v\<close> and the time \<open>q\<close> since it
  last changed: while less than the delay has passed the timeout for \<open>v\<close> is pending
  with the rest of the delay, afterwards no timeout is pending and the cell holds \<open>v\<close>.
\<close>

definition coherent :: "nat \<Rightarrow> string \<Rightarrow> nat \<Rightarrow> DebounceState \<Rightarrow> bool" where
  "coherent delay v q s =
     (raw_value s = v
      \<and> (if q < delay then timer s = Some (delay - q, v)
         else timer s = None \<and> debouncedValue s = v))"

section \<open>The invariant of the pagination state\<close>

text \<open>
  The invariant as the specification words it, over the integer fields of its data model:
  \<open>totalPages = ceil(total/limit)\<close> when \<open>limit > 0\<close>, and \<open>page\<close> within
  \<open>[1, max(totalPages, 1)]\<close>.
\<close>

fun as_integer :: "number \<Rightarrow> int option" where
  "as_integer (Num i) = Some i"
| "as_integer _ = None"

definition pagination_invariant :: "PaginationState \<Rightarrow> bool" where
  "pagination_invariant p =
     (case (as_integer (page p), as_integer (limit p), as_integer (total_items p),
            as_integer (totalPages p)) of
        (Some pg, Some l, Some t, Some tp) \<Rightarrow>
          (0 < l \<longrightarrow> tp = \<lceil>real_of_int t / real_of_int l\<rceil>) \<and> 1 \<le> pg \<and> pg \<le> max tp 1
      | _ \<Rightarrow> False)"

text \<open>
  Committing a settled fetch. The callback \<open>fetchTransactions\<close> is created anew exactly
  when \<open>pagination.limit\<close> changes, and the mount effect and the search effect depend on
  it: when the pagination that is stored carries another limit, both effects run again
  after the render, the mount effect first.
\<close>

definition settle_with_effects :: "Dashboard \<Rightarrow> fetch_outcome \<Rightarrow> Dashboard" where
  "settle_with_effects s out =
     (let s' = fetchTransactions_settle s out
      in if limit (pagination s') = limit (pagination s) then s'
         else search_effect (mount_effect s'))"

text \<open>
  The states the dashboard reaches when every response that is stored carries pagination
  data that satisfies the invariant and has the limit of the current state. The first
  render is followed by the first run of the effects, the mount effect and then the search
  effect; later the search query is typed and settles, the search effect runs, pages are
  changed with the buttons (which pass integers), fetches are retried and settle.
\<close>

fun outcome_in_range :: "Dashboard \<Rightarrow> fetch_outcome \<Rightarrow> bool" where
  "outcome_in_range s NetworkError = True"
| "outcome_in_range s (HttpResponse status None) = True"
| "outcome_in_range s (HttpResponse status (Some d)) =
     (\<not> response_ok status
      \<or> (pagination_invariant (resp_pagination d)
         \<and> limit (resp_pagination d) = limit (pagination s)))"

inductive reachable_in_range :: "Dashboard \<Rightarrow> bool" where
  first_render: "reachable_in_range (initial_state params)"
| first_effects: "reachable_in_range (search_effect (mount_effect (initial_state params)))"
| typing: "reachable_in_range s \<Longrightarrow> reachable_in_range (s\<lparr>searchQuery := q\<rparr>)"
| debounced: "reachable_in_range s \<Longrightarrow> reachable_in_range (s\<lparr>debouncedSearchQuery := q\<rparr>)"
| search: "reachable_in_range s \<Longrightarrow> reachable_in_range (search_effect s)"
| page_change: "reachable_in_range s \<Longrightarrow> reachable_in_range (handlePageChange s (Num n))"
| retry: "reachable_in_range s \<Longrightarrow> reachable_in_range (handleRetry s)"
| settle:
    "reachable_in_range s \<Longrightarrow> outcome_in_range s out
     \<Longrightarrow> reachable_in_range (settle_with_effects s out)"

section \<open>Example data\<close>

text \<open>
  A top-up; a first page of 25 results; the answer of a server with 3 results to a request
  for page 7; an answer that is consistent in itself but gives 20 results per page; and
  the state of the dashboard after its first effects have run on a location without
  query and the first page has arrived.
\<close>

definition topup_example :: Transaction where
  "topup_example =
     \<lparr>tx_id = ''t-1'',
      sender = \<lparr>name = ''Bank'', account = ''bank''\<rparr>,
      receiver = \<lparr>name = ''Abebe'', account = ''abebe''\<rparr>,
      amount_with_currency = ''100.00 ETB'', amount = 100, amount_in_base_currency = 100,
      fee = 0, currency = ''ETB'', cause = ''top up'', sender_caption = [],
      receiver_caption = [], created_at_time = 1700000000, is_topup = True,
      is_outgoing_transfer = False, fee_vat = 0, fee_before_vat = 0\<rparr>"

definition example_response :: PaginatedResponse where
  "example_response =
     \<lparr>resp_data = [topup_example],
      resp_pagination = \<lparr>page = Num 1, limit = Num 10, total_items = Num 25, totalPages = Num 3\<rparr>,
      resp_incomingSum = Some 100, resp_outgoingSum = None\<rparr>"

definition echo_response :: PaginatedResponse where
  "echo_response =
     \<lparr>resp_data = [],
      resp_pagination = \<lparr>page = Num 7, limit = Num 10, total_items = Num 3, totalPages = Num 1\<rparr>,
      resp_incomingSum = None, resp_outgoingSum = None\<rparr>"

definition relimit_response :: PaginatedResponse where
  "relimit_response =
     \<lparr>resp_data = [topup_example],
      resp_pagination = \<lparr>page = Num 2, limit = Num 20, total_items = Num 25, totalPages = Num 2\<rparr>,
      resp_incomingSum = None, resp_outgoingSum = None\<rparr>"

definition loaded_state :: Dashboard where
  "loaded_state =
     fetchTransactions_settle (search_effect (mount_effect (initial_state [])))
       (HttpResponse 200 (Some example_response))"

section \<open>Properties of rounding\<close>

lemma ulp_of_small: "n < 2 ^ 53 \<Longrightarrow> ulp_of n = 1"
  by (simp add: ulp_of.simps)

lemma ulp_of_first_binade: "2 ^ 53 \<le> n \<Longrightarrow> n < 2 ^ 54 \<Longrightarrow> ulp_of n = 2"
  by (subst ulp_of.simps) (simp add: ulp_of_small)

lemma round_magnitude_small: "n < 2 ^ 53 \<Longrightarrow> round_magnitude n = n"
  by (simp add: round_magnitude_def ulp_of_small)

lemma ulp_of_large:
  "2 ^ 53 \<le> n \<Longrightarrow> 2 \<le> ulp_of n \<and> 2 ^ 52 \<le> n div ulp_of n"
proof (induction n rule: ulp_of.induct)
  case (1 n)
  show ?case
  proof (cases "n div 2 < 2 ^ 53")
    case True
    then have "ulp_of n = 2"
      using "1.prems" by (subst ulp_of.simps) (simp add: ulp_of_small)
    moreover have "(2::int) ^ 52 \<le> n div 2"
      using "1.prems" by simp
    ultimately show ?thesis by simp
  next
    case False
    then have big: "2 ^ 53 \<le> n div 2" by simp
    have ih: "2 \<le> ulp_of (n div 2) \<and> 2 ^ 52 \<le> n div 2 div ulp_of (n div 2)"
      using "1.IH" "1.prems" big by simp
    have u: "ulp_of n = 2 * ulp_of (n div 2)"
      using "1.prems" by (subst ulp_of.simps) simp
    have "n div (2 * ulp_of (n div 2)) = n div 2 div ulp_of (n div 2)"
      using ih by (simp add: zdiv_zmult2_eq)
    then show ?thesis using ih u by simp
  qed
qed

lemma round_magnitude_large:
  assumes "2 ^ 53 \<le> n"
  shows "2 ^ 53 \<le> round_magnitude n"
proof -
  define u where "u = ulp_of n"
  define q where "q = n div u"
  have u: "2 \<le> u" and q: "2 ^ 52 \<le> q"
    using ulp_of_large [OF assms] by (simp_all add: u_def q_def)
  have "(2::int) ^ 53 = 2 ^ 52 * 2" by simp
  also have "\<dots> \<le> q * u"
    using u q by (intro mult_mono) simp_all
  finally have lo: "2 ^ 53 \<le> q * u" .
  have "q * u \<le> (q + 1) * u"
    using u by (simp add: distrib_right)
  then have "2 ^ 53 \<le> (q + 1) * u" using lo by simp
  then show ?thesis
    using lo by (simp add: round_magnitude_def Let_def u_def q_def)
qed

lemma to_double_exact: "\<bar>x\<bar> \<le> 2 ^ 53 \<Longrightarrow> to_double x = Num x"
proof -
  assume a: "\<bar>x\<bar> \<le> 2 ^ 53"
  have r: "round_magnitude \<bar>x\<bar> = \<bar>x\<bar>"
  proof (cases "\<bar>x\<bar> < 2 ^ 53")
    case True
    then show ?thesis by (rule round_magnitude_small)
  next
    case False
    then have "\<bar>x\<bar> = 2 ^ 53" using a by simp
    then show ?thesis
      by (simp add: round_magnitude_def ulp_of_first_binade)
  qed
  have "\<bar>x\<bar> < 2 ^ 1024"
    using a by (rule le_less_trans) simp
  then show ?thesis
    using r by (simp add: to_double_def Let_def)
qed

lemma to_double_large: "2 ^ 53 \<le> x \<Longrightarrow> js_le (Num (2 ^ 53)) (to_double x)"
  using round_magnitude_large [of x]
  by (simp add: to_double_def Let_def)

lemma to_double_large_neg: "x \<le> - (2 ^ 53) \<Longrightarrow> js_le (to_double x) (Num (- (2 ^ 53)))"
  using round_magnitude_large [of "- x"]
  by (simp add: to_double_def Let_def)

lemma to_double_lower:
  assumes "k \<le> x" and "- (2 ^ 53) \<le> k" and "k \<le> 2 ^ 53"
  shows "js_le (Num k) (to_double x)"
proof (cases "x \<le> 2 ^ 53")
  case True
  then have "to_double x = Num x"
    using assms by (intro to_double_exact) simp
  then show ?thesis using assms by simp
next
  case False
  then have "js_le (Num (2 ^ 53)) (to_double x)"
    by (intro to_double_large) simp
  then show ?thesis
    using assms(3) by (cases "to_double x") simp_all
qed

lemma to_double_upper:
  assumes "x \<le> k" and "- (2 ^ 53) \<le> k" and "k \<le> 2 ^ 53"
  shows "js_le (to_double x) (Num k)"
proof (cases "- (2 ^ 53) \<le> x")
  case True
  then have "to_double x = Num x"
    using assms by (intro to_double_exact) simp
  then show ?thesis using assms by simp
next
  case False
  then have "js_le (to_double x) (Num (- (2 ^ 53)))"
    by (intro to_double_large_neg) simp
  then show ?thesis
    using assms(2) by (cases "to_double x") simp_all
qed

text \<open>Bounds survive the rounded operations, also where the operand is an infinity.\<close>

lemma js_add_lower:
  assumes "js_le (Num k) a" and "- (2 ^ 53) \<le> k + m" and "k + m \<le> 2 ^ 53"
  shows "js_le (Num (k + m)) (js_add a (Num m))"
proof (cases a)
  case (Num y)
  then have "k + m \<le> y + m" using assms(1) by simp
  then show ?thesis using Num assms(2,3) by (simp add: to_double_lower)
qed (use assms in simp_all)

lemma js_sub_lower:
  assumes "js_le (Num k) a" and "- (2 ^ 53) \<le> k - m" and "k - m \<le> 2 ^ 53"
  shows "js_le (Num (k - m)) (js_sub a (Num m))"
proof (cases a)
  case (Num y)
  then have "k - m \<le> y - m" using assms(1) by simp
  then show ?thesis using Num assms(2,3) by (simp add: to_double_lower)
qed (use assms in simp_all)

lemma js_sub_upper:
  assumes "js_le (Num k) a" and "- (2 ^ 53) \<le> t - k" and "t - k \<le> 2 ^ 53"
  shows "js_le (js_sub (Num t) a) (Num (t - k))"
proof (cases a)
  case (Num y)
  then have "t - y \<le> t - k" using assms(1) by simp
  then show ?thesis using Num assms(2,3) by (simp add: to_double_upper)
qed (use assms in simp_all)

lemma js_add_upper:
  assumes "js_le a (Num k)" and "- (2 ^ 53) \<le> k + m" and "k + m \<le> 2 ^ 53"
  shows "js_le (js_add a (Num m)) (Num (k + m))"
proof (cases a)
  case (Num y)
  then have "y + m \<le> k + m" using assms(1) by simp
  then show ?thesis using Num assms(2,3) by (simp add: to_double_upper)
qed (use assms in simp_all)

lemma Math_max_lower: "js_le (Num k) a \<Longrightarrow> 1 \<le> k \<Longrightarrow> Math_max (Num 1) a = a"
  by (cases a) simp_all

lemma Math_min_lower: "js_le (Num k) a \<Longrightarrow> t \<le> k \<Longrightarrow> Math_min (Num t) a = Num t"
  by (cases a) simp_all

lemma js_lt_upper: "js_le a (Num k) \<Longrightarrow> k < m \<Longrightarrow> js_lt a (Num m)"
  by (cases a) simp_all

text \<open>Just above \<open>2 ^ 53\<close> every second integer is a double; the others are ties.\<close>

lemma to_double_ties:
  "to_double 9007199254740993 = Num 9007199254740992"
  "to_double 9007199254740994 = Num 9007199254740994"
  "to_double 9007199254740995 = Num 9007199254740996"
  "to_double 9007199254740996 = Num 9007199254740996"
  by (simp_all add: to_double_def round_magnitude_def ulp_of_first_binade Let_def)

lemma magnitude_string_examples:
  "magnitude_string 1 = ''1''"
  "magnitude_string 2 = ''2''"
  "magnitude_string 3 = ''3''"
  "magnitude_string 7 = ''7''"
  "magnitude_string 10 = ''10''"
  "magnitude_string 20 = ''20''"
  by (simp_all add: magnitude_string_def string_of_nat.simps)

section \<open>Properties of the page window\<close>

lemma pages_loop_upto:
  assumes "- (2 ^ 53) \<le> a" and "b < 2 ^ 53"
  shows "pages_loop (Num a) (Num b) acc = Some (acc @ map Num [a..b])"
  using assms(1)
proof (induction "nat (b + 1 - a)" arbitrary: a acc)
  case 0
  then have "\<not> a \<le> b" by simp
  then show ?case by (simp add: pages_loop.simps)
next
  case (Suc k)
  then have le: "a \<le> b" and k: "k = nat (b + 1 - (a + 1))" by simp_all
  have "\<bar>a + 1\<bar> \<le> 2 ^ 53"
    using le Suc.prems assms(2) by simp
  then have inc: "js_add (Num a) (Num 1) = Num (a + 1)"
    by (simp add: to_double_exact)
  have "pages_loop (Num a) (Num b) acc = pages_loop (Num (a + 1)) (Num b) (acc @ [Num a])"
    using le inc by (subst pages_loop.simps) simp
  also have "\<dots> = Some ((acc @ [Num a]) @ map Num [a + 1..b])"
    using Suc.prems by (intro Suc.hyps(1) [OF k]) simp
  also have "\<dots> = Some (acc @ map Num [a..b])"
    using le by (simp add: upto_rec1)
  finally show ?case .
qed

text \<open>A loop whose counter no longer advances below its bound does not return.\<close>

lemma pages_loop_stuck:
  assumes "js_add i (Num 1) = i" and "js_le i endPage"
  shows "pages_loop i endPage acc = None"
proof (rule ccontr)
  assume "pages_loop i endPage acc \<noteq> None"
  then obtain y where y: "pages_loop i endPage acc = Some y" by auto
  have "\<not> (i = i \<and> endPage = endPage)"
  proof (rule pages_loop.raw_induct [where P = "\<lambda>a b c d. \<not> (a = i \<and> b = endPage)", OF _ y])
    fix loop a b c d
    assume IH: "\<And>a b c d. loop a b c = Some d \<Longrightarrow> \<not> (a = i \<and> b = endPage)"
      and step: "(if js_le a b then loop (js_add a (Num 1)) b (c @ [a]) else Some c) = Some d"
    show "\<not> (a = i \<and> b = endPage)"
    proof
      assume "a = i \<and> b = endPage"
      then have "loop i endPage (c @ [i]) = Some d"
        using step assms by simp
      then show False using IH by blast
    qed
  qed
  then show False by simp
qed

lemma pages_loop_stuck_at_2_53:
  "9007199254740992 \<le> e \<Longrightarrow> pages_loop (Num 9007199254740992) (Num e) acc = None"
  by (rule pages_loop_stuck) (simp_all add: to_double_ties)

lemma Pagination_pages_window:
  assumes "1 \<le> c" and "0 \<le> t" and "window_end c t < 2 ^ 53"
  shows "Pagination_pages (Num c) (Num t) = Some (map Num [window_start c t..window_end c t])"
proof -
  have five: "maxVisiblePages = Num 5" "Math_floor_half maxVisiblePages = Num 2"
    by (simp_all add: maxVisiblePages_def)
  have "Pagination_pages (Num c) (Num t)
      = pages_loop (Num (window_start c t)) (Num (window_end c t)) []"
  proof (cases "c \<le> 2 ^ 53 - 3")
    case True
    define s0 where "s0 = max 1 (c - 2)"
    have s0: "1 \<le> s0" "s0 \<le> 2 ^ 53 - 5"
      using True assms(1) by (simp_all add: s0_def)
    have we: "window_end c t = min t (s0 + 4)"
      by (simp add: window_end_def s0_def)
    have we0: "0 \<le> window_end c t"
      using assms(2) s0 by (simp add: we)
    have ws: "window_start c t
        = (if window_end c t - s0 + 1 < 5 then max 1 (window_end c t - 4) else s0)"
      by (simp add: window_start_def s0_def Let_def)
    have a1: "js_sub (Num c) (Num 2) = Num (c - 2)"
      using True assms(1) by (simp add: to_double_exact)
    have a2: "js_add (Num s0) (Num 5) = Num (s0 + 5)"
      using s0 by (simp add: to_double_exact)
    have a3: "js_sub (Num (s0 + 5)) (Num 1) = Num (s0 + 4)"
      using s0 by (simp add: to_double_exact)
    have a4: "js_sub (Num (window_end c t)) (Num s0) = Num (window_end c t - s0)"
      using s0 we0 assms(3) by (simp add: to_double_exact)
    have "window_end c t - s0 \<le> 4"
      by (simp add: we)
    then have a5: "js_add (Num (window_end c t - s0)) (Num 1) = Num (window_end c t - s0 + 1)"
      using s0 we0 by (simp add: to_double_exact)
    have a6: "js_sub (Num (window_end c t)) (Num 5) = Num (window_end c t - 5)"
      using we0 assms(3) by (simp add: to_double_exact)
    have a7: "js_add (Num (window_end c t - 5)) (Num 1) = Num (window_end c t - 4)"
      using we0 assms(3) by (simp add: to_double_exact)
    have st0: "Math_max (Num 1) (js_sub (Num c) (Math_floor_half maxVisiblePages)) = Num s0"
      unfolding five(2) a1 by (simp add: s0_def)
    have en: "Math_min (Num t) (js_sub (js_add (Num s0) (Num 5)) (Num 1)) = Num (window_end c t)"
      unfolding a2 a3 by (simp add: we)
    show ?thesis
      unfolding Pagination_pages_def Let_def st0
      unfolding five(1) en a4 a5 a6 a7
      by (simp add: ws)
  next
    case False
    then have c: "2 ^ 53 - 2 \<le> c" by simp
    have t: "t < 2 ^ 53" and we: "window_end c t = t"
      using assms(3) c by (simp_all add: window_end_def)
    have ws: "window_start c t = max 1 (t - 4)"
      using c t by (simp add: window_start_def we Let_def)
    define S where "S = js_sub (Num c) (Num 2)"
    have S: "js_le (Num (2 ^ 53 - 4)) S"
      unfolding S_def using c by (simp add: to_double_lower)
    have m1: "Math_max (Num 1) S = S"
      using S by (rule Math_max_lower) simp
    have S5: "js_le (Num (2 ^ 53 - 5 + 5)) (js_add S (Num 5))"
    proof (rule js_add_lower)
      show "js_le (Num (2 ^ 53 - 5)) S"
        using S by (cases S) simp_all
    qed simp_all
    have S4: "js_le (Num (2 ^ 53 - 5 + 5 - 1)) (js_sub (js_add S (Num 5)) (Num 1))"
      using S5 by (rule js_sub_lower) simp_all
    have m2: "Math_min (Num t) (js_sub (js_add S (Num 5)) (Num 1)) = Num t"
      using S4 by (rule Math_min_lower) (use t in simp)
    have D: "js_le (js_sub (Num t) S) (Num (t - (2 ^ 53 - 4)))"
      using S by (rule js_sub_upper) (use t assms(2) in simp_all)
    have D1: "js_le (js_add (js_sub (Num t) S) (Num 1)) (Num (t - (2 ^ 53 - 4) + 1))"
      using D by (rule js_add_upper) (use t assms(2) in simp_all)
    have lt: "js_lt (js_add (js_sub (Num t) S) (Num 1)) (Num 5)"
      using D1 by (rule js_lt_upper) (use t in simp)
    have a6: "js_sub (Num t) (Num 5) = Num (t - 5)"
      using t assms(2) by (simp add: to_double_exact)
    have a7: "js_add (Num (t - 5)) (Num 1) = Num (t - 4)"
      using t assms(2) by (simp add: to_double_exact)
    have st0: "Math_max (Num 1) (js_sub (Num c) (Math_floor_half maxVisiblePages)) = S"
      unfolding five(2) S_def [symmetric] by (rule m1)
    show ?thesis
      unfolding Pagination_pages_def Let_def st0
      unfolding five(1) m2 a6 a7
      using lt by (simp add: we ws)
  qed
  moreover have "1 \<le> window_start c t"
    by (simp add: window_start_def Let_def)
  then have "- (2 ^ 53) \<le> window_start c t"
    by simp
  ultimately show ?thesis
    using assms(3) by (simp add: pages_loop_upto)
qed

text \<open>
  Claim C1 says that the Pagination component emits the window for every currentPage at
  least 1 and every totalPages at least 0. For currentPage \<open>2 ^ 53 - 1\<close> and totalPages
  \<open>2 ^ 53 + 10\<close> the loop reaches \<open>2 ^ 53\<close>, where \<open>i++\<close> no longer advances, and does
  not return.
\<close>

theorem Pagination_pages_does_not_return:
  "Pagination_pages (Num (2 ^ 53 - 1)) (Num (2 ^ 53 + 10)) = None"
proof -
  have "Pagination_pages (Num (2 ^ 53 - 1)) (Num (2 ^ 53 + 10))
      = pages_loop (Num 9007199254740988) (Num 9007199254740992) []"
    by (simp add: Pagination_pages_def maxVisiblePages_def to_double_exact to_double_ties)
  also have "\<dots> = None"
    by (simp add: pages_loop.simps [of "Num 9007199254740988"]
        pages_loop.simps [of "Num 9007199254740989"]
        pages_loop.simps [of "Num 9007199254740990"]
        pages_loop.simps [of "Num 9007199254740991"]
        to_double_exact pages_loop_stuck_at_2_53)
  finally show ?thesis .
qed

text \<open>
  Claim C1, amended. For every currentPage at least 1 and every totalPages at least 0 for
  which the end of the window, min(totalPages, max(1, currentPage - floor(5/2)) + 4), is
  below \<open>2 ^ 53\<close>, the Pagination component returns exactly the page numbers from start to
  end inclusive, where start is max(1, currentPage - floor(5/2)), end is
  min(totalPages, start + 4), and start is moved to max(1, end - 4) when the window is
  shorter than 5. With 12 pages, page 1 gives 1..5, page 10 gives 8..12 and page 7
  gives 5..9.
\<close>

theorem Pagination_pages_emits_window:
  assumes "1 \<le> cur" and "0 \<le> tot" and "window_end cur tot < 2 ^ 53"
  shows "Pagination_pages (Num cur) (Num tot)
     = Some (map Num [window_start cur tot..window_end cur tot])
   \<and> Pagination_pages (Num 1) (Num 12) = Some [Num 1, Num 2, Num 3, Num 4, Num 5]
   \<and> Pagination_pages (Num 10) (Num 12) = Some [Num 8, Num 9, Num 10, Num 11, Num 12]
   \<and> Pagination_pages (Num 7) (Num 12) = Some [Num 5, Num 6, Num 7, Num 8, Num 9]"
proof (intro conjI)
  show "Pagination_pages (Num cur) (Num tot)
     = Some (map Num [window_start cur tot..window_end cur tot])"
    using assms by (rule Pagination_pages_window)
  have u1: "[1..5] = [1, 2, 3, 4, 5 :: int]" by (simp add: upto_rec1)
  have u2: "[8..12] = [8, 9, 10, 11, 12 :: int]" by (simp add: upto_rec1)
  have u3: "[5..9] = [5, 6, 7, 8, 9 :: int]" by (simp add: upto_rec1)
  have "Pagination_pages (Num 1) (Num 12) = Some (map Num [window_start 1 12..window_end 1 12])"
    by (rule Pagination_pages_window) (simp_all add: window_end_def)
  then show "Pagination_pages (Num 1) (Num 12) = Some [Num 1, Num 2, Num 3, Num 4, Num 5]"
    by (simp add: window_start_def window_end_def u1)
  have "Pagination_pages (Num 10) (Num 12) = Some (map Num [window_start 10 12..window_end 10 12])"
    by (rule Pagination_pages_window) (simp_all add: window_end_def)
  then show "Pagination_pages (Num 10) (Num 12) = Some [Num 8, Num 9, Num 10, Num 11, Num 12]"
    by (simp add: window_start_def window_end_def u2)
  have "Pagination_pages (Num 7) (Num 12) = Some (map Num [window_start 7 12..window_end 7 12])"
    by (rule Pagination_pages_window) (simp_all add: window_end_def)
  then show "Pagination_pages (Num 7) (Num 12) = Some [Num 5, Num 6, Num 7, Num 8, Num 9]"
    by (simp add: window_start_def window_end_def u3)
qed

theorem Pagination_pages_emits_window_witness:
  "(1::int) \<le> 1152921504606846976 \<and> (0::int) \<le> 12
   \<and> window_end 1152921504606846976 12 < 2 ^ 53
   \<and> Pagination_pages (Num 1152921504606846976) (Num 12)
       = Some [Num 8, Num 9, Num 10, Num 11, Num 12]
   \<and> (1::int) \<le> 3 \<and> (0::int) \<le> 1152921504606846976
   \<and> window_end 3 1152921504606846976 < 2 ^ 53
   \<and> Pagination_pages (Num 3) (Num 1152921504606846976)
       = Some [Num 1, Num 2, Num 3, Num 4, Num 5]"
proof -
  have u1: "[1..5] = [1, 2, 3, 4, 5 :: int]" by (simp add: upto_rec1)
  have u2: "[8..12] = [8, 9, 10, 11, 12 :: int]" by (simp add: upto_rec1)
  have e1: "window_end 1152921504606846976 12 = 12" "window_start 1152921504606846976 12 = 8"
    by (simp_all add: window_start_def window_end_def)
  have e2: "window_end 3 1152921504606846976 = 5" "window_start 3 1152921504606846976 = 1"
    by (simp_all add: window_start_def window_end_def)
  show ?thesis
    using Pagination_pages_emits_window [of 1152921504606846976 12]
      Pagination_pages_emits_window [of 3 1152921504606846976]
    by (simp add: e1 e2 u1 u2)
qed




section \<open>Properties of the classification\<close>

text \<open>
  Claim C10. A transaction that is a top-up, or whose sender account equals its receiver
  account, is classified as incoming whatever the current user is.
\<close>

theorem isIncomingTransaction_independent_of_user:
  assumes "is_topup transaction \<or> account (sender transaction) = account (receiver transaction)"
  shows "isIncomingTransaction transaction currentUser"
  using assms by (auto simp: isIncomingTransaction_def)

theorem isIncomingTransaction_independent_of_user_witness:
  "(is_topup topup_example
      \<or> account (sender topup_example) = account (receiver topup_example))
   \<and> account (receiver topup_example) \<noteq> CURRENT_USER
   \<and> isIncomingTransaction topup_example CURRENT_USER"
proof -
  have h: "is_topup topup_example
      \<or> account (sender topup_example) = account (receiver topup_example)"
    by (simp add: topup_example_def)
  have "isIncomingTransaction topup_example CURRENT_USER"
    by (rule isIncomingTransaction_independent_of_user [OF h])
  then show ?thesis
    by (simp add: topup_example_def CURRENT_USER_def)
qed

section \<open>Properties of page changes and of the mount effect\<close>

lemma searchParams_get_set: "searchParams_get (searchParams_set params k v) k = Some v"
  by (induction params) (auto simp: searchParams_get_def)

lemma loaded_state_fields:
  "pagination loaded_state = \<lparr>page = Num 1, limit = Num 10, total_items = Num 25, totalPages = Num 3\<rparr>"
  "isLoading loaded_state = False"
  "transactions loaded_state = [topup_example]"
  "location_search loaded_state = [(''p'', ''1'')]"
  "debouncedSearchQuery loaded_state = []"
  by (simp_all add: loaded_state_def example_response_def mount_effect_def search_effect_def
      write_page_to_url_def initial_state_def fetchTransactions_start_def response_ok_def
      fetch_success_def magnitude_string_examples Let_def)

text \<open>
  Claim C3. A page change to a page below 1, to a page above totalPages, or while a fetch
  is in flight, does nothing: the state is the same, so the pagination state is
  unchanged, the location is not written and no request is issued.
\<close>

theorem handlePageChange_rejected:
  assumes "js_lt newPage (Num 1) \<or> js_gt newPage (totalPages (pagination s)) \<or> isLoading s"
  shows "handlePageChange s newPage = s
     \<and> pagination (handlePageChange s newPage) = pagination s
     \<and> location_search (handlePageChange s newPage) = location_search s
     \<and> requests (handlePageChange s newPage) = requests s"
  using assms by (simp add: handlePageChange_def)

theorem handlePageChange_rejected_witness:
  "(js_lt (Num 4) (Num 1) \<or> js_gt (Num 4) (totalPages (pagination loaded_state))
      \<or> isLoading loaded_state)
   \<and> handlePageChange loaded_state (Num 4) = loaded_state
   \<and> requests (handlePageChange loaded_state (Num 4)) = requests loaded_state"
proof -
  have h: "js_lt (Num 4) (Num 1) \<or> js_gt (Num 4) (totalPages (pagination loaded_state))
      \<or> isLoading loaded_state"
    by (simp add: loaded_state_fields js_gt_def)
  show ?thesis
    using h handlePageChange_rejected [OF h] by simp
qed

text \<open>
  Claim C4. An accepted page change (1 \<le> newPage \<le> totalPages, not loading) sets the
  page to newPage and leaves limit, total and totalPages as they were, writes newPage
  into the query parameter p, and issues the request for newPage with the settled
  search query.
\<close>

theorem handlePageChange_accepted:
  assumes "1 \<le> n" and "totalPages (pagination s) = Num tp" and "n \<le> tp" and "\<not> isLoading s"
  shows "page (pagination (handlePageChange s (Num n))) = Num n
     \<and> limit (pagination (handlePageChange s (Num n))) = limit (pagination s)
     \<and> total_items (pagination (handlePageChange s (Num n))) = total_items (pagination s)
     \<and> totalPages (pagination (handlePageChange s (Num n))) = totalPages (pagination s)
     \<and> searchParams_get (location_search (handlePageChange s (Num n))) ''p'' = Some (toString (Num n))
     \<and> requests (handlePageChange s (Num n))
         = requests s @ [fetch_request (Num n) (limit (pagination s)) (debouncedSearchQuery s)]"
  using assms
  by (simp add: handlePageChange_def js_gt_def Let_def write_page_to_url_def
      fetchTransactions_start_def searchParams_get_set)

theorem handlePageChange_accepted_witness:
  "(1::int) \<le> 2 \<and> totalPages (pagination loaded_state) = Num 3 \<and> (2::int) \<le> 3
   \<and> \<not> isLoading loaded_state
   \<and> page (pagination (handlePageChange loaded_state (Num 2))) = Num 2
   \<and> searchParams_get (location_search (handlePageChange loaded_state (Num 2))) ''p'' = Some ''2''
   \<and> map req_url (requests (handlePageChange loaded_state (Num 2)))
       = map req_url (requests loaded_state)
         @ [''http://localhost:3001/api/transactions?page=2&limit=10'']"
proof -
  have t: "totalPages (pagination loaded_state) = Num 3" and l: "\<not> isLoading loaded_state"
    by (simp_all add: loaded_state_fields)
  show ?thesis
    using t l handlePageChange_accepted [of 2 loaded_state 3, OF _ t _ l]
    by (simp add: loaded_state_fields fetch_request_def trim_def API_BASE_URL_def
        magnitude_string_examples)
qed

text \<open>
  Claim C5 says that a query parameter p that is not a number gives the initial page 1.
  The mount effect falls back to 1 only for a missing or empty parameter: for
  \<open>?p=abc\<close> the page that it stores and the page of its request, the first one the
  dashboard sends, is \<open>NaN\<close>.
\<close>

theorem mount_effect_nonnumeric_page:
  "initialPage [(''p'', ''abc'')] = NaN
   \<and> page (pagination (mount_effect (initial_state [(''p'', ''abc'')]))) = NaN
   \<and> map req_url (requests (mount_effect (initial_state [(''p'', ''abc'')])))
       = [''http://localhost:3001/api/transactions?page=NaN&limit=10'']"
proof -
  have p: "initialPage [(''p'', ''abc'')] = NaN"
    by (simp add: initialPage_def searchParams_get_def parseInt_def is_whitespace_def
        is_digit_def digit_value_def)
  show ?thesis
    by (simp add: p mount_effect_def initial_state_def initial_pagination_def Let_def
        fetchTransactions_start_def fetch_request_def trim_def API_BASE_URL_def
        magnitude_string_examples)
qed

section \<open>Properties of fetching\<close>

text \<open>
  Claim C6. After a fetch that fails (the promise rejects, the status is not 2xx, or the
  body does not parse) the transactions are empty, the pagination state is the zero state
  (total 0, totalPages 0), and the error is the one fixed, non-empty message, the same
  for every failure; in the hook likewise when the call of the client rejects.
\<close>

theorem fetch_failure_resets:
  assumes "fetch_failed out"
  shows "transactions (fetchTransactions_settle s out) = []
     \<and> pagination (fetchTransactions_settle s out)
         = \<lparr>page = Num 1, limit = Num 10, total_items = Num 0, totalPages = Num 0\<rparr>
     \<and> error (fetchTransactions_settle s out) = Some fetch_error_message
     \<and> fetch_error_message \<noteq> []
     \<and> \<not> isLoading (fetchTransactions_settle s out)
     \<and> h_transactions (hook_fetchTransactions_settle h ApiRejected) = []
     \<and> total_items (h_pagination (hook_fetchTransactions_settle h ApiRejected)) = Num 0
     \<and> totalPages (h_pagination (hook_fetchTransactions_settle h ApiRejected)) = Num 0
     \<and> h_error (hook_fetchTransactions_settle h ApiRejected) = Some fetch_error_message"
proof -
  have "fetchTransactions_settle s out = fetch_failure s"
    using assms by (cases out) (auto split: option.splits)
  then show ?thesis
    by (simp add: fetch_failure_def fetch_error_message_def)
qed

theorem fetch_failure_resets_witness:
  "fetch_failed (HttpResponse 500 None)
   \<and> transactions loaded_state \<noteq> []
   \<and> transactions (fetchTransactions_settle loaded_state (HttpResponse 500 None)) = []
   \<and> total_items (pagination (fetchTransactions_settle loaded_state (HttpResponse 500 None))) = Num 0
   \<and> error (fetchTransactions_settle loaded_state (HttpResponse 500 None)) = Some fetch_error_message"
proof -
  have h: "fetch_failed (HttpResponse 500 None)"
    by (simp add: response_ok_def)
  show ?thesis
    using h fetch_failure_resets [OF h, of loaded_state]
    by (simp add: loaded_state_fields)
qed


lemma trim_Nil_iff: "trim q = [] \<longleftrightarrow> (\<forall>c\<in>set q. is_whitespace c)"
proof
  assume "trim q = []"
  then have all: "\<forall>c\<in>set (dropWhile is_whitespace q). is_whitespace c"
    by (simp add: trim_def dropWhile_eq_Nil_conv)
  have "dropWhile is_whitespace q = []"
  proof (rule ccontr)
    assume ne: "dropWhile is_whitespace q \<noteq> []"
    then have "\<not> is_whitespace (hd (dropWhile is_whitespace q))"
      by (rule hd_dropWhile)
    moreover have "hd (dropWhile is_whitespace q) \<in> set (dropWhile is_whitespace q)"
      using ne by (rule hd_in_set)
    ultimately show False using all by blast
  qed
  then show "\<forall>c\<in>set q. is_whitespace c"
    by (simp add: dropWhile_eq_Nil_conv)
next
  assume "\<forall>c\<in>set q. is_whitespace c"
  then have "dropWhile is_whitespace q = []"
    by (simp add: dropWhile_eq_Nil_conv)
  then show "trim q = []"
    by (metis trim_def rev.simps(1) dropWhile.simps(1))
qed

lemma last_dropWhile_keep: "dropWhile P xs \<noteq> [] \<Longrightarrow> last (dropWhile P xs) = last xs"
  by (induction xs) (auto split: if_splits)

lemma trim_first: "trim q = c # rest \<Longrightarrow> \<not> is_whitespace c"
proof -
  assume t: "trim q = c # rest"
  define xs where "xs = dropWhile is_whitespace q"
  define ys where "ys = dropWhile is_whitespace (rev xs)"
  from t have r: "rev ys = c # rest" by (simp add: trim_def xs_def ys_def)
  then have ne: "ys \<noteq> []" by auto
  then have "xs \<noteq> []" by (auto simp: ys_def)
  from r ne have "c = last ys" by (metis hd_rev list.sel(1))
  also have "\<dots> = last (rev xs)" using ne unfolding ys_def by (rule last_dropWhile_keep)
  also have "\<dots> = hd xs" using \<open>xs \<noteq> []\<close> by (simp add: last_rev)
  finally show ?thesis using \<open>xs \<noteq> []\<close> hd_dropWhile [of is_whitespace q] by (simp add: xs_def)
qed

lemma trim_last: "trim q = front @ [c] \<Longrightarrow> \<not> is_whitespace c"
proof -
  assume t: "trim q = front @ [c]"
  define ys where "ys = dropWhile is_whitespace (rev (dropWhile is_whitespace q))"
  from t have "rev ys = front @ [c]" by (simp add: trim_def ys_def)
  then have "ys = c # rev front" by (metis rev_rev_ident rev.simps(2) rev_append rev_singleton_conv append_Cons append_Nil)
  then have "ys \<noteq> []" "hd ys = c" by auto
  then show ?thesis using hd_dropWhile [of is_whitespace "rev (dropWhile is_whitespace q)"]
    by (simp add: ys_def)
qed

text \<open>
  Claim C7. For every query, fetchTransactions issues POST /api/transactions/search with
  the body {query: trimmed query} exactly when the trimmed query is not empty, and GET
  /api/transactions otherwise; both carry the page and the limit as query parameters.
  The query is trimmed before use: the trimmed query neither starts nor ends with white
  space, and it is empty, meaning no filter, exactly when the query is all white space.
  The same holds for the call that the hook hands to its client.
\<close>

theorem fetchTransactions_request:
  "requests (fetchTransactions_start s pg query)
     = requests s @ [fetch_request pg (limit (pagination s)) query]
   \<and> (req_method (fetch_request pg lmt query) = POST \<longleftrightarrow> trim query \<noteq> [])
   \<and> (req_method (fetch_request pg lmt query) = GET \<longleftrightarrow> trim query = [])
   \<and> (trim query \<noteq> [] \<longrightarrow>
        req_url (fetch_request pg lmt query)
          = API_BASE_URL @ ''/api/transactions/search?page='' @ toString pg @ ''&limit='' @ toString lmt
        \<and> req_body (fetch_request pg lmt query) = Some (QueryBody (trim query)))
   \<and> (trim query = [] \<longrightarrow>
        req_url (fetch_request pg lmt query)
          = API_BASE_URL @ ''/api/transactions?page='' @ toString pg @ ''&limit='' @ toString lmt
        \<and> req_body (fetch_request pg lmt query) = None)
   \<and> h_calls (hook_fetchTransactions_start h pg query)
     = h_calls h @ [api_call pg (limit (h_pagination h)) query]
   \<and> (call_method (api_call pg lmt query) = POST \<longleftrightarrow> trim query \<noteq> [])
   \<and> (call_method (api_call pg lmt query) = GET \<longleftrightarrow> trim query = [])
   \<and> (trim query \<noteq> [] \<longrightarrow>
        call_path (api_call pg lmt query) = ''/api/transactions/search''
        \<and> call_body (api_call pg lmt query) = Some (QueryBody (trim query)))
   \<and> (trim query = [] \<longrightarrow>
        call_path (api_call pg lmt query) = ''/api/transactions''
        \<and> call_body (api_call pg lmt query) = None)
   \<and> call_params (api_call pg lmt query) = [(''page'', toString pg), (''limit'', toString lmt)]
   \<and> (trim query = [] \<longleftrightarrow> (\<forall>c\<in>set query. is_whitespace c))
   \<and> (\<forall>c rest. trim query = c # rest \<longrightarrow> \<not> is_whitespace c)
   \<and> (\<forall>c front. trim query = front @ [c] \<longrightarrow> \<not> is_whitespace c)"
proof -
  have a: "requests (fetchTransactions_start s pg query)
     = requests s @ [fetch_request pg (limit (pagination s)) query]"
    by (simp add: fetchTransactions_start_def)
  have b: "h_calls (hook_fetchTransactions_start h pg query)
     = h_calls h @ [api_call pg (limit (h_pagination h)) query]"
    by (simp add: hook_fetchTransactions_start_def)
  have c: "trim query = [] \<longleftrightarrow> (\<forall>c\<in>set query. is_whitespace c)"
    by (rule trim_Nil_iff)
  have d: "\<forall>c rest. trim query = c # rest \<longrightarrow> \<not> is_whitespace c"
    using trim_first by blast
  have e: "\<forall>c front. trim query = front @ [c] \<longrightarrow> \<not> is_whitespace c"
    using trim_last by blast
  show ?thesis
    unfolding a b
    using c d e by (simp add: fetch_request_def api_call_def)
qed

theorem fetchTransactions_request_witness:
  "trim ''  abc '' = ''abc''
   \<and> req_method (fetch_request (Num 2) (Num 10) ''  abc '') = POST
   \<and> req_url (fetch_request (Num 2) (Num 10) ''  abc '')
       = ''http://localhost:3001/api/transactions/search?page=2&limit=10''
   \<and> req_body (fetch_request (Num 2) (Num 10) ''  abc '') = Some (QueryBody ''abc'')
   \<and> trim ''   '' = []
   \<and> req_method (fetch_request (Num 2) (Num 10) ''   '') = GET
   \<and> req_url (fetch_request (Num 2) (Num 10) ''   '')
       = ''http://localhost:3001/api/transactions?page=2&limit=10''
   \<and> req_body (fetch_request (Num 2) (Num 10) ''   '') = None"
proof -
  have t1: "trim ''  abc '' = ''abc''" and t2: "trim ''   '' = []"
    by (simp_all add: trim_def is_whitespace_def)
  have n: "magnitude_string 2 = ''2''" "magnitude_string 10 = ''10''"
    by (rule magnitude_string_examples)+
  have r1: "req_method (fetch_request (Num 2) (Num 10) ''  abc '') = POST
   \<and> req_url (fetch_request (Num 2) (Num 10) ''  abc '')
       = ''http://localhost:3001/api/transactions/search?page=2&limit=10''
   \<and> req_body (fetch_request (Num 2) (Num 10) ''  abc '') = Some (QueryBody ''abc'')"
    using fetchTransactions_request [of loaded_state "Num 2" "''  abc ''" "Num 10" "useTransactions_initial (Num 1) :: unit HookState"]
    by (simp add: t1 n API_BASE_URL_def)
  have r2: "req_method (fetch_request (Num 2) (Num 10) ''   '') = GET
   \<and> req_url (fetch_request (Num 2) (Num 10) ''   '')
       = ''http://localhost:3001/api/transactions?page=2&limit=10''
   \<and> req_body (fetch_request (Num 2) (Num 10) ''   '') = None"
    using fetchTransactions_request [of loaded_state "Num 2" "''   ''" "Num 10" "useTransactions_initial (Num 1) :: unit HookState"]
    by (simp add: t2 n API_BASE_URL_def)
  show ?thesis using t1 t2 r1 r2 by simp
qed


section \<open>The pagination invariant over the transitions\<close>

lemma as_integer_Some [simp]: "as_integer x = Some i \<longleftrightarrow> x = Num i"
  by (cases x) auto

lemma pagination_invariant_iff:
  "pagination_invariant p \<longleftrightarrow>
     (\<exists>pg l t tp. page p = Num pg \<and> limit p = Num l \<and> total_items p = Num t
        \<and> totalPages p = Num tp
        \<and> (0 < l \<longrightarrow> tp = \<lceil>real_of_int t / real_of_int l\<rceil>) \<and> 1 \<le> pg \<and> pg \<le> max tp 1)"
  by (auto simp: pagination_invariant_def split: option.splits)

lemma pagination_fetchTransactions_start [simp]:
  "pagination (fetchTransactions_start s pg query) = pagination s"
  by (simp add: fetchTransactions_start_def)

lemma pagination_write_page_to_url [simp]:
  "pagination (write_page_to_url s n) = pagination s"
  by (simp add: write_page_to_url_def)

lemma pagination_mount_effect:
  "pagination (mount_effect s) = (pagination s)\<lparr>page := initialPage (location_search s)\<rparr>"
  by (simp add: mount_effect_def Let_def)

lemma pagination_search_effect:
  "pagination (search_effect s)
     = (if debouncedSearchQuery s \<noteq> searchQuery s then pagination s
        else (pagination s)\<lparr>page := Num 1\<rparr>)"
  by (simp add: search_effect_def Let_def)

lemma pagination_handlePageChange:
  "pagination (handlePageChange s n) = pagination s
   \<or> (pagination (handlePageChange s n) = (pagination s)\<lparr>page := n\<rparr>
      \<and> \<not> js_lt n (Num 1) \<and> \<not> js_gt n (totalPages (pagination s)))"
  by (simp add: handlePageChange_def Let_def)

lemma invariant_initial: "pagination_invariant initial_pagination"
  by (simp add: pagination_invariant_iff initial_pagination_def)

lemma invariant_page_one:
  "pagination_invariant p \<Longrightarrow> pagination_invariant (p\<lparr>page := Num 1\<rparr>)"
  by (auto simp: pagination_invariant_iff)

lemma invariant_first_effects:
  "pagination (search_effect (mount_effect (initial_state params)))
     = \<lparr>page = Num 1, limit = Num 10, total_items = Num 0, totalPages = Num 0\<rparr>"
  by (simp add: pagination_search_effect pagination_mount_effect mount_effect_def
      fetchTransactions_start_def initial_state_def initial_pagination_def Let_def)

lemma invariant_search_effect:
  "pagination_invariant (pagination s) \<Longrightarrow> pagination_invariant (pagination (search_effect s))"
  by (simp add: pagination_search_effect invariant_page_one)

lemma invariant_handlePageChange:
  assumes "pagination_invariant (pagination s)"
  shows "pagination_invariant (pagination (handlePageChange s (Num n)))"
  using pagination_handlePageChange [of s "Num n"] assms
  by (auto simp: pagination_invariant_iff js_gt_def)

lemma invariant_fetch_failure:
  "pagination (fetch_failure s)
     = \<lparr>page = Num 1, limit = Num 10, total_items = Num 0, totalPages = Num 0\<rparr>"
  by (simp add: fetch_failure_def)

lemma settle_in_range:
  assumes "outcome_in_range s out" and "limit (pagination s) = Num 10"
  shows "pagination_invariant (pagination (fetchTransactions_settle s out))
     \<and> limit (pagination (fetchTransactions_settle s out)) = Num 10"
proof -
  have f: "pagination_invariant (pagination (fetch_failure s))
      \<and> limit (pagination (fetch_failure s)) = Num 10"
    by (simp add: invariant_fetch_failure pagination_invariant_iff)
  show ?thesis
  proof (cases out)
    case NetworkError
    then show ?thesis using f by simp
  next
    case (HttpResponse status body)
    then show ?thesis
      using assms f by (cases body) (auto simp: fetch_success_def)
  qed
qed

lemma settle_with_effects_in_range:
  assumes "outcome_in_range s out" and "limit (pagination s) = Num 10"
  shows "settle_with_effects s out = fetchTransactions_settle s out"
  using settle_in_range [OF assms] assms(2)
  by (simp add: settle_with_effects_def Let_def)

lemma reachable_invariant_and_limit:
  assumes "reachable_in_range s"
  shows "pagination_invariant (pagination s) \<and> limit (pagination s) = Num 10"
  using assms
proof (induction rule: reachable_in_range.induct)
  case (first_render params)
  then show ?case
    by (simp add: initial_state_def invariant_initial) (simp add: initial_pagination_def)
next
  case (first_effects params)
  then show ?case
    by (simp add: invariant_first_effects pagination_invariant_iff)
next
  case (typing s q)
  then show ?case by simp
next
  case (debounced s q)
  then show ?case by simp
next
  case (search s)
  then show ?case
    by (simp add: invariant_search_effect) (simp add: pagination_search_effect)
next
  case (page_change s n)
  then show ?case
    using pagination_handlePageChange [of s "Num n"]
    by (auto simp: invariant_handlePageChange)
next
  case (retry s)
  then show ?case by (simp add: handleRetry_def)
next
  case (settle s out)
  then show ?case
    by (simp add: settle_with_effects_in_range settle_in_range)
qed

text \<open>
  Claim C9 says that the invariant holds in every reachable pagination state, also after
  any response. A response is stored as it comes. After the first effects on \<open>?p=7\<close>
  the request for page 7 is out; when a server with 3 results on 1 page answers it and
  echoes the page, the state has page 7 and totalPages 1. And a response that satisfies the
  invariant but carries another limit makes the mount effect run again, which puts the page
  of the location over the page of the response: with 25 results the user goes to page 3
  and types into the search box, the answer says page 2 of 2 with 20 per page, and the
  state has page 3 and totalPages 2.
\<close>

theorem pagination_invariant_not_maintained:
  "map req_url (requests (search_effect (mount_effect (initial_state [(''p'', ''7'')]))))
     = [''http://localhost:3001/api/transactions?page=7&limit=10'',
        ''http://localhost:3001/api/transactions?page=1&limit=10'']
   \<and> \<not> pagination_invariant (pagination
         (settle_with_effects (search_effect (mount_effect (initial_state [(''p'', ''7'')])))
            (HttpResponse 200 (Some echo_response))))
   \<and> pagination_invariant (pagination loaded_state)
   \<and> pagination_invariant (resp_pagination relimit_response)
   \<and> \<not> pagination_invariant (pagination
         (settle_with_effects ((handlePageChange loaded_state (Num 3))\<lparr>searchQuery := ''a''\<rparr>)
            (HttpResponse 200 (Some relimit_response))))"
proof -
  have p7: "initialPage [(''p'', ''7'')] = Num 7" and p3: "initialPage [(''p'', ''3'')] = Num 3"
    by (simp_all add: initialPage_def searchParams_get_def parseInt_def is_whitespace_def
        is_digit_def digit_value_def digit_of_def to_double_exact)
  have a: "map req_url (requests (search_effect (mount_effect (initial_state [(''p'', ''7'')]))))
     = [''http://localhost:3001/api/transactions?page=7&limit=10'',
        ''http://localhost:3001/api/transactions?page=1&limit=10'']"
    by (simp add: search_effect_def mount_effect_def initial_state_def initial_pagination_def
        write_page_to_url_def fetchTransactions_start_def fetch_request_def trim_def
        API_BASE_URL_def p7 magnitude_string_examples Let_def)
  have b: "\<not> pagination_invariant (pagination
         (settle_with_effects (search_effect (mount_effect (initial_state [(''p'', ''7'')])))
            (HttpResponse 200 (Some echo_response))))"
    by (simp add: settle_with_effects_def Let_def response_ok_def fetch_success_def
        echo_response_def invariant_first_effects pagination_invariant_iff)
  have c: "pagination_invariant (pagination loaded_state)"
    by (simp add: loaded_state_fields pagination_invariant_iff)
  have d: "pagination_invariant (resp_pagination relimit_response)"
    by (simp add: relimit_response_def pagination_invariant_iff)
  let ?s = "(handlePageChange loaded_state (Num 3))\<lparr>searchQuery := ''a''\<rparr>"
  have s: "pagination ?s = \<lparr>page = Num 3, limit = Num 10, total_items = Num 25, totalPages = Num 3\<rparr>"
    "location_search ?s = [(''p'', ''3'')]" "debouncedSearchQuery ?s = []" "searchQuery ?s = ''a''"
    by (simp_all add: handlePageChange_def loaded_state_fields js_gt_def Let_def
        write_page_to_url_def fetchTransactions_start_def magnitude_string_examples)
  let ?t = "fetch_success ?s relimit_response"
  have t: "pagination ?t = \<lparr>page = Num 2, limit = Num 20, total_items = Num 25, totalPages = Num 2\<rparr>"
    "location_search ?t = [(''p'', ''3'')]" "debouncedSearchQuery ?t = []" "searchQuery ?t = ''a''"
    using s by (simp_all add: fetch_success_def relimit_response_def)
  have st: "fetchTransactions_settle ?s (HttpResponse 200 (Some relimit_response)) = ?t"
    by (simp add: response_ok_def)
  have m: "pagination (mount_effect ?t)
      = \<lparr>page = Num 3, limit = Num 20, total_items = Num 25, totalPages = Num 2\<rparr>"
    "debouncedSearchQuery (mount_effect ?t) \<noteq> searchQuery (mount_effect ?t)"
    by (simp_all add: mount_effect_def fetchTransactions_start_def Let_def t p3)
  have "pagination (settle_with_effects ?s (HttpResponse 200 (Some relimit_response)))
      = \<lparr>page = Num 3, limit = Num 20, total_items = Num 25, totalPages = Num 2\<rparr>"
    unfolding settle_with_effects_def st Let_def
    by (simp add: t s pagination_search_effect m)
  then have e: "\<not> pagination_invariant (pagination
         (settle_with_effects ?s (HttpResponse 200 (Some relimit_response))))"
    by (simp add: pagination_invariant_iff)
  show ?thesis using a b c d e by simp
qed

text \<open>
  Claim C9, amended. In every pagination state that the dashboard reaches, from any
  location, while every response that is stored carries pagination data that satisfies
  the invariant and has the limit of the current state, totalPages = ceil(total/limit)
  when limit > 0 and page lies within [1, max(totalPages, 1)]. The states are those after
  the first render, after the first run of the mount effect and the search effect, after
  typing and settling of the search query, after the search effect, after any page change
  requested for an integer page, after a retry, and after any fetch failure or such a response.
\<close>

theorem reachable_pagination_invariant:
  assumes "reachable_in_range s"
  shows "pagination_invariant (pagination s)"
  using reachable_invariant_and_limit [OF assms] by simp

theorem reachable_pagination_invariant_witness:
  "reachable_in_range (handlePageChange loaded_state (Num 2))
   \<and> pagination_invariant (pagination (handlePageChange loaded_state (Num 2)))
   \<and> pagination (handlePageChange loaded_state (Num 2))
       = \<lparr>page = Num 2, limit = Num 10, total_items = Num 25, totalPages = Num 3\<rparr>
   \<and> reachable_in_range (search_effect (mount_effect (initial_state [(''p'', ''7'')])))
   \<and> pagination_invariant
        (pagination (search_effect (mount_effect (initial_state [(''p'', ''7'')]))))"
proof -
  have r1: "reachable_in_range (search_effect (mount_effect (initial_state [])))"
    by (rule reachable_in_range.first_effects)
  have l1: "limit (pagination (search_effect (mount_effect (initial_state [])))) = Num 10"
    by (simp add: invariant_first_effects)
  have o: "outcome_in_range (search_effect (mount_effect (initial_state [])))
      (HttpResponse 200 (Some example_response))"
    by (simp add: example_response_def pagination_invariant_iff invariant_first_effects)
  have "settle_with_effects (search_effect (mount_effect (initial_state [])))
      (HttpResponse 200 (Some example_response)) = loaded_state"
    using o l1 by (simp add: settle_with_effects_in_range loaded_state_def)
  then have r2: "reachable_in_range loaded_state"
    using reachable_in_range.settle [OF r1 o] by simp
  have r3: "reachable_in_range (handlePageChange loaded_state (Num 2))"
    using r2 by (rule reachable_in_range.page_change)
  have r7: "reachable_in_range (search_effect (mount_effect (initial_state [(''p'', ''7'')])))"
    by (rule reachable_in_range.first_effects)
  have "pagination (handlePageChange loaded_state (Num 2))
       = \<lparr>page = Num 2, limit = Num 10, total_items = Num 25, totalPages = Num 3\<rparr>"
    by (simp add: handlePageChange_def loaded_state_fields js_gt_def Let_def)
  then show ?thesis
    using r3 r7 reachable_pagination_invariant [OF r3] reachable_pagination_invariant [OF r7]
    by simp
qed

section \<open>Properties of the debounced value\<close>

lemma useDebounce_run_append:
  "useDebounce_run delay s (es @ es') = useDebounce_run delay (useDebounce_run delay s es) es'"
  by (induction es arbitrary: s) simp_all

lemma coherent_mount: "0 < delay \<Longrightarrow> coherent delay v 0 (useDebounce_mount v delay)"
  by (simp add: coherent_def useDebounce_mount_def)

lemma coherent_render:
  assumes "0 < delay" and "coherent delay v q s"
  shows "coherent delay v' (if v' = v then q else 0) (useDebounce_render delay s v')"
  using assms by (auto simp: coherent_def useDebounce_render_def)

lemma coherent_elapse:
  assumes "coherent delay v q s"
  shows "coherent delay v (q + d) (timer_elapse s d)"
  using assms by (auto simp: coherent_def timer_elapse_def split: if_splits)

lemma coherent_run:
  assumes "0 < delay" and "coherent delay v q s"
  shows "coherent delay (latest_raw v es) (quiet_time v q es) (useDebounce_run delay s es)"
  using assms(2)
proof (induction es arbitrary: s v q)
  case Nil
  then show ?case by simp
next
  case (Cons e es)
  show ?case
  proof (cases e)
    case (Render v')
    have "coherent delay v' (if v' = v then q else 0) (useDebounce_render delay s v')"
      using assms(1) Cons.prems by (rule coherent_render)
    then show ?thesis using Render Cons.IH by simp
  next
    case (Elapse d)
    have "coherent delay v (q + d) (timer_elapse s d)"
      using Cons.prems by (rule coherent_elapse)
    then show ?thesis using Elapse Cons.IH by simp
  qed
qed

lemma burst_keeps:
  assumes "0 < delay" and "coherent delay v q s" and "q < delay" and "burst delay v q es"
  shows "emitted (useDebounce_run delay s es) = emitted s
     \<and> debouncedValue (useDebounce_run delay s es) = debouncedValue s
     \<and> quiet_time v q es < delay"
  using assms(2-)
proof (induction es arbitrary: s v q)
  case Nil
  then show ?case by simp
next
  case (Cons e es)
  show ?case
  proof (cases e)
    case (Render v')
    let ?s = "useDebounce_render delay s v'" and ?q = "if v' = v then q else 0"
    have c: "coherent delay v' ?q ?s"
      using assms(1) Cons.prems(1) by (rule coherent_render)
    have q: "?q < delay" using Cons.prems(2) assms(1) by simp
    have b: "burst delay v' ?q es" using Cons.prems(3) Render by simp
    have same: "emitted ?s = emitted s" "debouncedValue ?s = debouncedValue s"
      by (simp_all add: useDebounce_render_def)
    show ?thesis using Cons.IH [OF c q b] Render same by simp
  next
    case (Elapse d)
    have q: "q + d < delay" and b: "burst delay v (q + d) es"
      using Cons.prems(3) Elapse by simp_all
    have c: "coherent delay v (q + d) (timer_elapse s d)"
      using Cons.prems(1) by (rule coherent_elapse)
    have "timer s = Some (delay - q, v)"
      using Cons.prems(1,2) by (simp add: coherent_def)
    moreover have "\<not> delay - q \<le> d"
      using q by arith
    ultimately have same: "emitted (timer_elapse s d) = emitted s"
      "debouncedValue (timer_elapse s d) = debouncedValue s"
      by (simp_all add: timer_elapse_def)
    show ?thesis using Cons.IH [OF c q b] Elapse same by simp
  qed
qed

lemma settled_stays:
  assumes "coherent delay v q s" and "delay \<le> q" and "steady v es"
  shows "useDebounce_run delay s es = s"
  using assms
proof (induction es arbitrary: q)
  case Nil
  then show ?case by simp
next
  case (Cons e es)
  have t: "timer s = None" and r: "raw_value s = v"
    using Cons.prems(1,2) by (simp_all add: coherent_def)
  show ?case
  proof (cases e)
    case (Render v')
    then have "useDebounce_step delay s e = s"
      using Cons.prems(3) r by (simp add: useDebounce_render_def)
    then show ?thesis using Cons Render by simp
  next
    case (Elapse d)
    then have "useDebounce_step delay s e = s"
      using t by (simp add: timer_elapse_def)
    then show ?thesis using Cons Elapse by simp
  qed
qed

lemma quiet_phase_emits_once:
  assumes "coherent delay v q s" and "q < delay" and "steady v es"
    and "delay \<le> quiet_time v q es"
  shows "emitted (useDebounce_run delay s es) = emitted s @ [v]
     \<and> debouncedValue (useDebounce_run delay s es) = v"
  using assms
proof (induction es arbitrary: s q)
  case Nil
  then show ?case by simp
next
  case (Cons e es)
  have t: "timer s = Some (delay - q, v)" and r: "raw_value s = v"
    using Cons.prems(1,2) by (simp_all add: coherent_def)
  show ?case
  proof (cases e)
    case (Render v')
    then have v': "v' = v" and st: "steady v es" using Cons.prems(3) by simp_all
    have same: "useDebounce_step delay s e = s"
      using Render v' r by (simp add: useDebounce_render_def)
    have "delay \<le> quiet_time v q es" using Cons.prems(4) Render v' by simp
    then show ?thesis using Cons.IH [OF Cons.prems(1,2) st] same by simp
  next
    case (Elapse d)
    then have st: "steady v es" and qt: "delay \<le> quiet_time v (q + d) es"
      using Cons.prems(3,4) by simp_all
    have c: "coherent delay v (q + d) (timer_elapse s d)"
      using Cons.prems(1) by (rule coherent_elapse)
    show ?thesis
    proof (cases "q + d < delay")
      case True
      then have "\<not> delay - q \<le> d"
        by arith
      then have same: "emitted (timer_elapse s d) = emitted s"
        using t by (simp add: timer_elapse_def)
      show ?thesis using Cons.IH [OF c True st qt] Elapse same by simp
    next
      case False
      then have le: "delay \<le> q + d" by simp
      have "delay - q \<le> d"
        using le by arith
      then have fired: "emitted (timer_elapse s d) = emitted s @ [v]"
        "debouncedValue (timer_elapse s d) = v"
        using t by (simp_all add: timer_elapse_def)
      have "useDebounce_run delay (timer_elapse s d) es = timer_elapse s d"
        using c le st by (rule settled_stays)
      then show ?thesis using Elapse fired by simp
    qed
  qed
qed

text \<open>
  Claim C8. For every sequence of renders and elapsed times after the mount: once the
  delay has passed since the raw value last changed, the debounced value is the latest raw
  value; a render with a new raw value replaces the pending timeout by one with the full
  delay and stores nothing; while the raw value is never left alone for the whole delay
  the debounced value is not updated and nothing is stored; and a burst of changes followed
  by a quiet phase of at least the delay stores exactly one value, the latest raw value.
\<close>

theorem useDebounce_settled_value:
  assumes "0 < delay"
  shows "(delay \<le> quiet_time v0 0 es \<longrightarrow>
           debouncedValue (useDebounce_run delay (useDebounce_mount v0 delay) es) = latest_raw v0 es)
     \<and> (v \<noteq> raw_value s \<longrightarrow>
           timer (useDebounce_render delay s v) = Some (delay, v)
           \<and> debouncedValue (useDebounce_render delay s v) = debouncedValue s
           \<and> emitted (useDebounce_render delay s v) = emitted s)
     \<and> (v \<noteq> latest_raw v0 es1 \<and> burst delay v 0 b \<longrightarrow>
           debouncedValue (useDebounce_run delay (useDebounce_mount v0 delay) (es1 @ Render v # b))
             = debouncedValue (useDebounce_run delay (useDebounce_mount v0 delay) es1)
           \<and> emitted (useDebounce_run delay (useDebounce_mount v0 delay) (es1 @ Render v # b))
             = emitted (useDebounce_run delay (useDebounce_mount v0 delay) es1))
     \<and> (v \<noteq> latest_raw v0 es1 \<and> burst delay v 0 b \<and> steady (latest_raw v b) qs
         \<and> delay \<le> quiet_time (latest_raw v b) (quiet_time v 0 b) qs \<longrightarrow>
           emitted (useDebounce_run delay (useDebounce_mount v0 delay) (es1 @ Render v # b @ qs))
             = emitted (useDebounce_run delay (useDebounce_mount v0 delay) es1) @ [latest_raw v b]
           \<and> debouncedValue (useDebounce_run delay (useDebounce_mount v0 delay) (es1 @ Render v # b @ qs))
             = latest_raw v b)"
proof (intro conjI impI)
  let ?m = "useDebounce_mount v0 delay"
  have cm: "coherent delay v0 0 ?m"
    using assms by (rule coherent_mount)
  {
    assume q: "delay \<le> quiet_time v0 0 es"
    have "coherent delay (latest_raw v0 es) (quiet_time v0 0 es) (useDebounce_run delay ?m es)"
      using assms cm by (rule coherent_run)
    then show "debouncedValue (useDebounce_run delay ?m es) = latest_raw v0 es"
      using q by (simp add: coherent_def)
  }
  {
    assume "v \<noteq> raw_value s"
    then show "timer (useDebounce_render delay s v) = Some (delay, v)"
      "debouncedValue (useDebounce_render delay s v) = debouncedValue s"
      "emitted (useDebounce_render delay s v) = emitted s"
      by (simp_all add: useDebounce_render_def)
  }
  let ?s1 = "useDebounce_run delay ?m es1"
  let ?s2 = "useDebounce_render delay ?s1 v"
  have c1: "coherent delay (latest_raw v0 es1) (quiet_time v0 0 es1) ?s1"
    using assms cm by (rule coherent_run)
  {
    assume h: "v \<noteq> latest_raw v0 es1 \<and> burst delay v 0 b"
    have "coherent delay v (if v = latest_raw v0 es1 then quiet_time v0 0 es1 else 0) ?s2"
      using assms c1 by (rule coherent_render)
    then have c2: "coherent delay v 0 ?s2" using h by simp
    have same: "emitted ?s2 = emitted ?s1" "debouncedValue ?s2 = debouncedValue ?s1"
      using h c1 by (simp_all add: useDebounce_render_def coherent_def)
    have k: "emitted (useDebounce_run delay ?s2 b) = emitted ?s2
       \<and> debouncedValue (useDebounce_run delay ?s2 b) = debouncedValue ?s2
       \<and> quiet_time v 0 b < delay"
    proof (rule burst_keeps [OF assms c2 assms])
      show "burst delay v 0 b" using h by simp
    qed
    show "debouncedValue (useDebounce_run delay ?m (es1 @ Render v # b)) = debouncedValue ?s1"
      using k same by (simp add: useDebounce_run_append)
    show "emitted (useDebounce_run delay ?m (es1 @ Render v # b)) = emitted ?s1"
      using k same by (simp add: useDebounce_run_append)
  }
  {
    assume h: "v \<noteq> latest_raw v0 es1 \<and> burst delay v 0 b \<and> steady (latest_raw v b) qs
         \<and> delay \<le> quiet_time (latest_raw v b) (quiet_time v 0 b) qs"
    have "coherent delay v (if v = latest_raw v0 es1 then quiet_time v0 0 es1 else 0) ?s2"
      using assms c1 by (rule coherent_render)
    then have c2: "coherent delay v 0 ?s2" using h by simp
    have same: "emitted ?s2 = emitted ?s1"
      using h c1 by (simp add: useDebounce_render_def coherent_def)
    let ?s3 = "useDebounce_run delay ?s2 b"
    have k: "emitted ?s3 = emitted ?s2
       \<and> debouncedValue ?s3 = debouncedValue ?s2
       \<and> quiet_time v 0 b < delay"
    proof (rule burst_keeps [OF assms c2 assms])
      show "burst delay v 0 b" using h by simp
    qed
    have c3: "coherent delay (latest_raw v b) (quiet_time v 0 b) ?s3"
      using assms c2 by (rule coherent_run)
    have e: "emitted (useDebounce_run delay ?s3 qs) = emitted ?s3 @ [latest_raw v b]
       \<and> debouncedValue (useDebounce_run delay ?s3 qs) = latest_raw v b"
    proof (rule quiet_phase_emits_once [OF c3])
      show "quiet_time v 0 b < delay" using k by simp
      show "steady (latest_raw v b) qs" using h by simp
      show "delay \<le> quiet_time (latest_raw v b) (quiet_time v 0 b) qs" using h by simp
    qed
    show "emitted (useDebounce_run delay ?m (es1 @ Render v # b @ qs))
        = emitted ?s1 @ [latest_raw v b]"
      using e k same by (simp add: useDebounce_run_append)
    show "debouncedValue (useDebounce_run delay ?m (es1 @ Render v # b @ qs)) = latest_raw v b"
      using e by (simp add: useDebounce_run_append)
  }
qed

theorem useDebounce_settled_value_witness:
  "(0::nat) < 300
   \<and> ''a'' \<noteq> latest_raw [] []
   \<and> burst 300 ''a'' 0 [Elapse 100, Render ''ab'', Elapse 100, Render ''abc'']
   \<and> steady ''abc'' [Elapse 300]
   \<and> debouncedValue (useDebounce_run 300 (useDebounce_mount [] 300)
         [Render ''a'', Elapse 100, Render ''ab'', Elapse 100, Render ''abc'']) = []
   \<and> emitted (useDebounce_run 300 (useDebounce_mount [] 300)
         [Render ''a'', Elapse 100, Render ''ab'', Elapse 100, Render ''abc'', Elapse 300])
       = [''abc'']
   \<and> debouncedValue (useDebounce_run 300 (useDebounce_mount [] 300)
         [Render ''a'', Elapse 100, Render ''ab'', Elapse 100, Render ''abc'', Elapse 300])
       = ''abc''"
proof -
  have d: "(0::nat) < 300" by simp
  show ?thesis
    using useDebounce_settled_value [OF d,
        where ?v0.0 = "[]" and v = "''a''" and ?es1.0 = "[]"
          and b = "[Elapse 100, Render ''ab'', Elapse 100, Render ''abc'']"
          and qs = "[Elapse 300]"
          and es = "[Render ''a'', Elapse 100, Render ''ab'', Elapse 100, Render ''abc'', Elapse 300]"
          and s = "useDebounce_mount [] 300"]
    by (simp add: useDebounce_mount_def useDebounce_render_def timer_elapse_def)
qed

end
